theory Spec2Isabelle
  imports Main "HOL-Library.Word" "HOL-Library.List_Lexorder" "HOL-Library.Char_ord"
begin

unbundle bit_operations_syntax

section \<open>Data model of unique.go\<close>

text \<open>
  A Go \<^verbatim>\<open>string\<close> and a \<^verbatim>\<open>[]byte\<close> are sequences of bytes: both are \<^typ>\<open>string\<close>
  (a list of 8-bit \<^typ>\<open>char\<close>). Go compares strings bytewise, a proper prefix being
  smaller: that is the order \<open><\<close> of lists over the order of \<^typ>\<open>char\<close> by byte value.
  \<^verbatim>\<open>int64\<close> is \<^typ>\<open>64 word\<close> (\<open>signed_drop_bit\<close> is its \<^verbatim>\<open>>>\<close>), \<^verbatim>\<open>uint32\<close> is
  \<^typ>\<open>32 word\<close>, \<^verbatim>\<open>byte\<close> is \<^typ>\<open>8 word\<close>.
\<close>

type_synonym byte = "8 word"

text \<open>The array type \<^verbatim>\<open>[6]byte\<close>: exactly six bytes, indexed from 0.\<close>

datatype hwaddr = HwAddr byte byte byte byte byte byte

fun hw_bytes :: "hwaddr \<Rightarrow> byte list" where
  "hw_bytes (HwAddr b0 b1 b2 b3 b4 b5) = [b0, b1, b2, b3, b4, b5]"

text \<open>The assignment \<^verbatim>\<open>a[i] = b\<close> for an index below 6, the only ones the code uses.\<close>

fun hw_update :: "nat \<Rightarrow> byte \<Rightarrow> hwaddr \<Rightarrow> hwaddr" where
  "hw_update i b (HwAddr b0 b1 b2 b3 b4 b5) =
     (if i = 0 then HwAddr b b1 b2 b3 b4 b5
      else if i = 1 then HwAddr b0 b b2 b3 b4 b5
      else if i = 2 then HwAddr b0 b1 b b3 b4 b5
      else if i = 3 then HwAddr b0 b1 b2 b b4 b5
      else if i = 4 then HwAddr b0 b1 b2 b3 b b5
      else if i = 5 then HwAddr b0 b1 b2 b3 b4 b
      else HwAddr b0 b1 b2 b3 b4 b5)"

record UniqueTimestamp =
  Timestamp :: "64 word"
  seqNo :: "32 word"
  hwAddr :: hwaddr

text \<open>
  The two package variables \<^verbatim>\<open>hwAddr\<close> and \<^verbatim>\<open>seqNo\<close>, which \<^verbatim>\<open>init\<close> sets once.
  They are passed explicitly; the fields carry a prefix because the struct has fields of
  the same names.
\<close>

record globals =
  global_hwAddr :: hwaddr
  global_seqNo :: "32 word"

section \<open>Construction\<close>

text \<open>
  \<^verbatim>\<open>atomic.AddUint32(&seqNo, 1)\<close> adds 1 to the counter, wrapping at \<open>2 ^ 32\<close>, and returns
  the new value, in one indivisible step.
\<close>

definition NewUniqueTimestamp :: "globals \<Rightarrow> 64 word \<Rightarrow> UniqueTimestamp \<times> globals" where
  "NewUniqueTimestamp g timestamp =
     (let n = global_seqNo g + 1
      in (\<lparr>Timestamp = timestamp, seqNo = n, hwAddr = global_hwAddr g\<rparr>,
          g\<lparr>global_seqNo := n\<rparr>))"

definition MinUniqueTimestamp :: "64 word \<Rightarrow> UniqueTimestamp" where
  "MinUniqueTimestamp timestamp =
     \<lparr>Timestamp = timestamp, seqNo = 0, hwAddr = HwAddr 0 0 0 0 0 0\<rparr>"

definition MaxUniqueTimestamp :: "64 word \<Rightarrow> UniqueTimestamp" where
  "MaxUniqueTimestamp timestamp =
     \<lparr>Timestamp = timestamp, seqNo = 0xFFFFFFFF,
      hwAddr = HwAddr 0xFF 0xFF 0xFF 0xFF 0xFF 0xFF\<rparr>"

text \<open>
  A run of calls of \<^verbatim>\<open>NewUniqueTimestamp\<close>, one per timestamp of the list. Since each call
  touches the shared counter in one atomic step, calls made concurrently take effect in
  some order, and the list is that order.
\<close>

fun NewUniqueTimestamps :: "globals \<Rightarrow> 64 word list \<Rightarrow> UniqueTimestamp list \<times> globals" where
  "NewUniqueTimestamps g [] = ([], g)"
| "NewUniqueTimestamps g (t # ts) =
     (let (u, g') = NewUniqueTimestamp g t;
          (us, g'') = NewUniqueTimestamps g' ts
      in (u # us, g''))"

section \<open>String\<close>

definition hexString :: string where
  "hexString = ''0123456789abcdef''"

text \<open>One round of each of the three loops of \<^verbatim>\<open>String\<close>, on the buffer \<open>r\<close>.\<close>

definition String_timestamp :: "64 word \<Rightarrow> nat \<Rightarrow> string \<Rightarrow> string" where
  "String_timestamp ts i r =
     (let b = signed_drop_bit (40 - i * 8) ts AND 0xFF
      in r[2 * i := hexString ! nat (sint (signed_drop_bit 4 b)),
           2 * i + 1 := hexString ! nat (sint (b AND 0xF))])"

definition String_seqNo :: "32 word \<Rightarrow> nat \<Rightarrow> string \<Rightarrow> string" where
  "String_seqNo s i r =
     (let b = drop_bit (24 - i * 8) s AND 0xFF
      in r[13 + 2 * i := hexString ! unat (drop_bit 4 b),
           14 + 2 * i := hexString ! unat (b AND 0xF)])"

definition String_hwAddr :: "nat \<times> byte \<Rightarrow> string \<Rightarrow> string" where
  "String_hwAddr ib r =
     (let i = fst ib; b = snd ib
      in r[21 + 2 * i := hexString ! unat (drop_bit 4 b),
           22 + 2 * i := hexString ! unat (b AND 0xF)])"

definition String :: "UniqueTimestamp \<Rightarrow> string" where
  "String u =
     (let r = replicate 34 (CHR 0x00);
          r = fold (String_timestamp (Timestamp u)) [0..<6] r;
          r = r[12 := CHR ''-''];
          r = fold (String_seqNo (seqNo u)) [0..<4] r;
          r = r[20 := CHR ''-''];
          r = fold String_hwAddr (enumerate 0 (hw_bytes (hwAddr u))) r
      in r)"

section \<open>FromString\<close>

text \<open>
  \<^verbatim>\<open>strings.Split(val, "-")\<close> of the Go library, for a separator of one byte: the pieces
  between the separators, in order; \<open>n\<close> separators give \<open>n + 1\<close> pieces, and the empty
  string gives one empty piece.
\<close>

fun Split :: "string \<Rightarrow> char \<Rightarrow> string list" where
  "Split [] sep = [[]]"
| "Split (c # cs) sep =
     (if c = sep then [] # Split cs sep
      else (case Split cs sep of
              [] \<Rightarrow> [[c]]
            | p # ps \<Rightarrow> (c # p) # ps))"

text \<open>
  \<^verbatim>\<open>strconv.ParseUint(s, base, bitSize)\<close> and \<^verbatim>\<open>strconv.ParseInt(s, base, bitSize)\<close> of
  the Go library, for an explicit base from 2 to 36 and a bit size from 1 to 64 (the
  calls of \<^verbatim>\<open>FromString\<close> pass 16 and 64, 32 or 8). The accumulator is a \<^verbatim>\<open>uint64\<close>.
  Both report a syntax error or a range error; the value returned beside an error is
  not used by \<^verbatim>\<open>FromString\<close> and is left out.
\<close>

datatype NumError = ErrSyntax | ErrRange

definition digit_value :: "char \<Rightarrow> nat option" where
  "digit_value c =
     (if CHR ''0'' \<le> c \<and> c \<le> CHR ''9'' then Some (of_char c - of_char CHR ''0'')
      else if CHR ''a'' \<le> c \<and> c \<le> CHR ''z'' then Some (of_char c - of_char CHR ''a'' + 10)
      else if CHR ''A'' \<le> c \<and> c \<le> CHR ''Z'' then Some (of_char c - of_char CHR ''A'' + 10)
      else None)"

fun ParseUint_loop :: "nat \<Rightarrow> 64 word \<Rightarrow> 64 word \<Rightarrow> string \<Rightarrow> 64 word \<Rightarrow> NumError + 64 word" where
  "ParseUint_loop base cutoff maxVal [] n = Inr n"
| "ParseUint_loop base cutoff maxVal (c # cs) n =
     (case digit_value c of
        None \<Rightarrow> Inl ErrSyntax
      | Some d \<Rightarrow>
          if d \<ge> base then Inl ErrSyntax
          else if n \<ge> cutoff then Inl ErrRange
          else (let n' = n * of_nat base; n1 = n' + of_nat d
                in if n1 < n' \<or> n1 > maxVal then Inl ErrRange
                   else ParseUint_loop base cutoff maxVal cs n1))"

definition ParseUint :: "string \<Rightarrow> nat \<Rightarrow> nat \<Rightarrow> NumError + 64 word" where
  "ParseUint s base bitSize =
     (if s = [] then Inl ErrSyntax
      else ParseUint_loop base (- 1 div of_nat base + 1) (push_bit bitSize 1 - 1) s 0)"

definition ParseInt :: "string \<Rightarrow> nat \<Rightarrow> nat \<Rightarrow> NumError + 64 word" where
  "ParseInt s base bitSize =
     (if s = [] then Inl ErrSyntax
      else (let neg = (hd s = CHR ''-'');
                s' = (if hd s = CHR ''+'' \<or> hd s = CHR ''-'' then tl s else s)
            in case ParseUint s' base bitSize of
                 Inl ErrSyntax \<Rightarrow> Inl ErrSyntax
               | Inl ErrRange \<Rightarrow> Inl ErrRange
               | Inr un \<Rightarrow>
                   (let cutoff = push_bit (bitSize - 1) 1
                    in if \<not> neg \<and> un \<ge> cutoff then Inl ErrRange
                       else if neg \<and> un > cutoff then Inl ErrRange
                       else Inr (if neg then - un else un))))"

text \<open>
  The four errors \<^verbatim>\<open>FromString\<close> builds with \<^verbatim>\<open>fmt.Errorf\<close>, and its three ways to end:
  \<^verbatim>\<open>return nil\<close>, \<^verbatim>\<open>return\<close> of an error, and the run-time panic of a slice expression
  whose bounds are out of range, which nothing recovers.
\<close>

datatype error =
    ErrSeparators
  | ErrTimestamp NumError
  | ErrSeqNo NumError
  | ErrHwAddr nat NumError

datatype outcome = ReturnNil | ReturnError error | Panic

text \<open>
  The loop over the indices of \<^verbatim>\<open>u.hwAddr\<close>. The slice \<^verbatim>\<open>parts[2][2*i:2*i+2]\<close> panics when
  \<^verbatim>\<open>2*i+2\<close> exceeds the length of the string.
\<close>

fun FromString_hwAddr :: "string \<Rightarrow> nat list \<Rightarrow> UniqueTimestamp \<Rightarrow> outcome \<times> UniqueTimestamp" where
  "FromString_hwAddr p [] u = (ReturnNil, u)"
| "FromString_hwAddr p (i # is) u =
     (if 2 * i + 2 > length p then (Panic, u)
      else (case ParseUint (take 2 (drop (2 * i) p)) 16 8 of
              Inl e \<Rightarrow> (ReturnError (ErrHwAddr (2 * i) e), u)
            | Inr b \<Rightarrow>
                FromString_hwAddr p is (u\<lparr>hwAddr := hw_update i (ucast b) (hwAddr u)\<rparr>)))"

definition FromString :: "UniqueTimestamp \<Rightarrow> string \<Rightarrow> outcome \<times> UniqueTimestamp" where
  "FromString u val =
     (let parts = Split val (CHR ''-'')
      in if length parts \<noteq> 3 then (ReturnError ErrSeparators, u)
         else (case ParseInt (parts ! 0) 16 64 of
                 Inl e \<Rightarrow> (ReturnError (ErrTimestamp e), u)
               | Inr timestamp \<Rightarrow>
                   (let u = u\<lparr>Timestamp := timestamp\<rparr>
                    in case ParseUint (parts ! 1) 16 32 of
                         Inl e \<Rightarrow> (ReturnError (ErrSeqNo e), u)
                       | Inr sn \<Rightarrow>
                           FromString_hwAddr (parts ! 2) [0..<6]
                             (u\<lparr>seqNo := ucast sn\<rparr>))))"

section \<open>Notions used in the statements\<close>

text \<open>
  The \<open>k\<close>-th hexadecimal digit of a number, counted from the least significant one, and
  the \<open>n\<close> lowest digits written with \<open>hexString\<close>, the most significant first.
\<close>

definition nibble :: "nat \<Rightarrow> nat \<Rightarrow> nat" where
  "nibble x k = (x div 16 ^ k) mod 16"

definition hex :: "nat \<Rightarrow> nat \<Rightarrow> string" where
  "hex n x = map (\<lambda>k. hexString ! nibble x k) (rev [0..<n])"

text \<open>
  The characters \<^verbatim>\<open>strconv\<close> takes as digits in base 16, a string without the sign that
  \<^verbatim>\<open>ParseInt\<close> takes off, and the outcomes of \<^verbatim>\<open>FromString\<close> that return an error.
\<close>

definition isHexDigit :: "char \<Rightarrow> bool" where
  "isHexDigit c \<longleftrightarrow>
     CHR ''0'' \<le> c \<and> c \<le> CHR ''9'' \<or> CHR ''a'' \<le> c \<and> c \<le> CHR ''f'' \<or>
     CHR ''A'' \<le> c \<and> c \<le> CHR ''F''"

definition strip_sign :: "string \<Rightarrow> string" where
  "strip_sign s = (if s \<noteq> [] \<and> (hd s = CHR ''+'' \<or> hd s = CHR ''-'') then tl s else s)"

fun returns_error :: "outcome \<Rightarrow> bool" where
  "returns_error (ReturnError e) = True"
| "returns_error ReturnNil = False"
| "returns_error Panic = False"

section \<open>The bytes \<^verbatim>\<open>String\<close> writes\<close>

lemma and_FF: "(w :: 'a::len word) AND 0xFF = take_bit 8 w"
  by (simp add: take_bit_eq_mask mask_eq_exp_minus_1)

lemma and_F: "(w :: 'a::len word) AND 0xF = take_bit 4 w"
  by (simp add: take_bit_eq_mask mask_eq_exp_minus_1)

lemma ts_hi_word:
  fixes ts :: "64 word"
  assumes "n \<le> 40"
  shows "signed_drop_bit 4 (signed_drop_bit n ts AND 0xFF) = take_bit 4 (drop_bit (n + 4) ts)"
  unfolding and_FF using assms
  by (intro bit_eqI) (auto simp add: bit_take_bit_iff bit_signed_drop_bit_iff bit_drop_bit_eq ac_simps)

lemma ts_lo_word:
  fixes ts :: "64 word"
  assumes "n \<le> 40"
  shows "(signed_drop_bit n ts AND 0xFF) AND 0xF = take_bit 4 (drop_bit n ts)"
proof -
  have "(signed_drop_bit n ts AND 0xFF) AND 0xF = take_bit 4 (take_bit 8 (signed_drop_bit n ts))"
    by (simp only: and_FF and_F)
  also have "\<dots> = take_bit 4 (drop_bit n ts)"
    using assms
    by (intro bit_eqI) (auto simp add: bit_take_bit_iff bit_signed_drop_bit_iff bit_drop_bit_eq ac_simps)
  finally show ?thesis .
qed

lemma unat_nib: "unat (take_bit 4 (drop_bit n (w :: 'a::len word))) = (unat w div 2 ^ n) mod 16"
proof -
  have "unat (take_bit 4 (drop_bit n w)) = take_bit 4 (drop_bit n (unat w))"
    by (simp only: unsigned_take_bit_eq unat_drop_bit_eq)
  then show ?thesis
    by (simp add: take_bit_eq_mod drop_bit_eq_div)
qed

lemma sint_nib: "nat (sint (take_bit 4 (w :: 64 word))) = unat (take_bit 4 w)"
proof -
  have "uint (take_bit 4 w) < 2 ^ 4"
    by (simp only: unsigned_take_bit_eq take_bit_int_less_exp)
  then have "uint (take_bit 4 w) < 2 ^ 63" by simp
  moreover have "- (2 ^ 63) \<le> uint (take_bit 4 w)"
    by (rule order_trans [of _ 0]) simp_all
  ultimately have "signed_take_bit 63 (uint (take_bit 4 w)) = uint (take_bit 4 w)"
    by (rule signed_take_bit_int_eq_self [rotated])
  then have "sint (take_bit 4 w) = uint (take_bit 4 w)"
    by (simp add: sint_uint)
  then show ?thesis by simp
qed

lemma ts_hi:
  fixes ts :: "64 word"
  assumes "n \<le> 40"
  shows "nat (sint (signed_drop_bit 4 (signed_drop_bit n ts AND 0xFF))) = (unat ts div 2 ^ (n + 4)) mod 16"
  by (simp only: ts_hi_word [OF assms] sint_nib unat_nib)

lemma ts_lo:
  fixes ts :: "64 word"
  assumes "n \<le> 40"
  shows "nat (sint ((signed_drop_bit n ts AND 0xFF) AND 0xF)) = (unat ts div 2 ^ n) mod 16"
  by (simp only: ts_lo_word [OF assms] sint_nib unat_nib)

lemma seq_hi:
  fixes s :: "32 word"
  shows "unat (drop_bit 4 (drop_bit n s AND 0xFF)) = (unat s div 2 ^ (n + 4)) mod 16"
proof -
  have "drop_bit 4 (drop_bit n s AND 0xFF) = take_bit 4 (drop_bit (n + 4) s)"
    unfolding and_FF
    by (intro bit_eqI) (auto simp add: bit_take_bit_iff bit_drop_bit_eq ac_simps)
  then show ?thesis by (simp only: unat_nib)
qed

lemma seq_lo:
  fixes s :: "32 word"
  shows "unat ((drop_bit n s AND 0xFF) AND 0xF) = (unat s div 2 ^ n) mod 16"
proof -
  have "(drop_bit n s AND 0xFF) AND 0xF = take_bit 4 (take_bit 8 (drop_bit n s))"
    by (simp only: and_FF and_F)
  then show ?thesis by (simp add: unat_nib)
qed



lemma pow16: "(16::nat) ^ k = 2 ^ (4 * k)"
  by (simp add: power_mult)

lemma String_timestamp_eq:
  assumes "i < 6"
  shows "String_timestamp ts i r =
     r[2 * i := hexString ! nibble (unat ts) (11 - 2 * i),
       2 * i + 1 := hexString ! nibble (unat ts) (10 - 2 * i)]"
proof -
  define n where "n = 40 - i * 8"
  from assms have n: "n \<le> 40" by (simp add: n_def)
  from assms have e: "(2::nat) ^ (n + 4) = 16 ^ (11 - 2 * i)" "(2::nat) ^ n = 16 ^ (10 - 2 * i)"
    by (simp_all add: pow16 n_def)
  have "String_timestamp ts i r =
     r[2 * i := hexString ! nat (sint (signed_drop_bit 4 (signed_drop_bit n ts AND 0xFF))),
       2 * i + 1 := hexString ! nat (sint ((signed_drop_bit n ts AND 0xFF) AND 0xF))]"
    by (simp only: String_timestamp_def Let_def n_def)
  then show ?thesis
    by (simp only: ts_hi [OF n] ts_lo [OF n] e nibble_def)
qed

lemma String_seqNo_eq:
  assumes "i < 4"
  shows "String_seqNo s i r =
     r[13 + 2 * i := hexString ! nibble (unat s) (7 - 2 * i),
       14 + 2 * i := hexString ! nibble (unat s) (6 - 2 * i)]"
proof -
  define n where "n = 24 - i * 8"
  from assms have e: "(2::nat) ^ (n + 4) = 16 ^ (7 - 2 * i)" "(2::nat) ^ n = 16 ^ (6 - 2 * i)"
    by (simp_all add: pow16 n_def)
  have "String_seqNo s i r =
     r[13 + 2 * i := hexString ! unat (drop_bit 4 (drop_bit n s AND 0xFF)),
       14 + 2 * i := hexString ! unat ((drop_bit n s AND 0xFF) AND 0xF)]"
    by (simp only: String_seqNo_def Let_def n_def)
  then show ?thesis
    by (simp only: seq_hi seq_lo e nibble_def)
qed

lemma String_hwAddr_eq:
  "String_hwAddr (i, b) r =
     r[21 + 2 * i := hexString ! nibble (unat b) 1,
       22 + 2 * i := hexString ! nibble (unat b) 0]"
proof -
  have "unat (drop_bit 4 b) = nibble (unat b) 1"
  proof -
    have "unat b < 256" using unsigned_less [of b, where 'a = nat] by simp
    moreover have "unat (drop_bit 4 b) = drop_bit 4 (unat b)"
      by (simp only: unat_drop_bit_eq)
    ultimately show ?thesis by (simp add: drop_bit_eq_div nibble_def)
  qed
  moreover have "unat (b AND 0xF) = nibble (unat b) 0"
    by (simp only: and_F unsigned_take_bit_eq) (simp add: take_bit_eq_mod nibble_def)
  ultimately show ?thesis
    by (simp only: String_hwAddr_def Let_def fst_conv snd_conv)
qed

lemma list_update_Cons_numeral:
  "(x # xs)[numeral k := v] = x # xs[pred_numeral k := v]"
  by (simp add: numeral_eq_Suc)

lemma upt_0_6: "[0..<6] = [0, 1, 2, 3, 4, 5]"
  by (simp add: upt_rec)

lemma upt_0_4: "[0..<4] = [0, 1, 2, 3]"
  by (simp add: upt_rec)

lemma enumerate_6: "enumerate 0 [a, b, c, d, e, f] = [(0, a), (1, b), (2, c), (3, d), (4, e), (5, f)]"
  by simp

lemma replicate_34: "replicate 34 c = [c,c,c,c,c,c,c,c,c,c, c,c,c,c,c,c,c,c,c,c, c,c,c,c,c,c,c,c,c,c, c,c,c,c]"
  by (simp add: numeral_eq_Suc)


text \<open>
  The 34 bytes of an encoding, one by one: twelve digits of the timestamp, a separator,
  the digits 7 to 1 of the sequence (digit 0 is written at index 20 and then replaced by
  the second separator), twelve digits of the discriminator at 21 to 32, and the byte at
  33 as \<^verbatim>\<open>make\<close> left it.
\<close>

lemma String_list:
  "String \<lparr>Timestamp = ts, seqNo = s, hwAddr = HwAddr b0 b1 b2 b3 b4 b5\<rparr> =
     [hexString ! nibble (unat ts) 11, hexString ! nibble (unat ts) 10,
      hexString ! nibble (unat ts) 9, hexString ! nibble (unat ts) 8,
      hexString ! nibble (unat ts) 7, hexString ! nibble (unat ts) 6,
      hexString ! nibble (unat ts) 5, hexString ! nibble (unat ts) 4,
      hexString ! nibble (unat ts) 3, hexString ! nibble (unat ts) 2,
      hexString ! nibble (unat ts) 1, hexString ! nibble (unat ts) 0,
      CHR ''-'',
      hexString ! nibble (unat s) 7, hexString ! nibble (unat s) 6,
      hexString ! nibble (unat s) 5, hexString ! nibble (unat s) 4,
      hexString ! nibble (unat s) 3, hexString ! nibble (unat s) 2,
      hexString ! nibble (unat s) 1,
      CHR ''-'',
      hexString ! nibble (unat b0) 1, hexString ! nibble (unat b0) 0,
      hexString ! nibble (unat b1) 1, hexString ! nibble (unat b1) 0,
      hexString ! nibble (unat b2) 1, hexString ! nibble (unat b2) 0,
      hexString ! nibble (unat b3) 1, hexString ! nibble (unat b3) 0,
      hexString ! nibble (unat b4) 1, hexString ! nibble (unat b4) 0,
      hexString ! nibble (unat b5) 1, hexString ! nibble (unat b5) 0,
      CHR 0x00]"
  by (simp add: String_def String_timestamp_eq String_seqNo_eq String_hwAddr_eq upt_0_6 upt_0_4 enumerate_6 replicate_34
    list_update_Cons_numeral)

text \<open>The length, the two separators and the byte that is never written.\<close>

lemma String_shape:
  "length (String u) = 34 \<and> String u ! 12 = CHR ''-'' \<and> String u ! 20 = CHR ''-'' \<and>
   String u ! 33 = CHR 0x00"
proof -
  obtain ts s h where u: "u = \<lparr>Timestamp = ts, seqNo = s, hwAddr = h\<rparr>" by (cases u) simp
  obtain b0 b1 b2 b3 b4 b5 where h: "h = HwAddr b0 b1 b2 b3 b4 b5" by (cases h) simp
  show ?thesis unfolding u h String_list by simp
qed

lemma hex_Suc: "hex (Suc n) x = hexString ! nibble x n # hex n x"
  by (simp add: hex_def)

lemma hex_0: "hex 0 x = []"
  by (simp add: hex_def)

lemma hex_1: "hex (Suc 0) x = [hexString ! nibble x 0]"
  by (simp add: hex_def)

lemma Suc_Suc_0: "Suc (Suc 0) = 2"
  by simp

lemma hex_numeral: "hex (numeral k) x = hexString ! nibble x (pred_numeral k) # hex (pred_numeral k) x"
  by (simp add: numeral_eq_Suc hex_Suc)

lemma nibble_div16: "nibble (x div 16) k = nibble x (k + 1)"
  by (simp add: nibble_def div_mult2_eq)

lemma String_eq:
  "String \<lparr>Timestamp = ts, seqNo = s, hwAddr = HwAddr b0 b1 b2 b3 b4 b5\<rparr> =
     hex 12 (unat ts) @ ''-'' @ hex 7 (unat s div 16) @ ''-'' @
     hex 2 (unat b0) @ hex 2 (unat b1) @ hex 2 (unat b2) @
     hex 2 (unat b3) @ hex 2 (unat b4) @ hex 2 (unat b5) @ [CHR 0x00]"
  by (simp add: String_list hex_numeral hex_1 nibble_div16 Suc_Suc_0)

section \<open>Order of the encodings\<close>

lemma hexString_table:
  "\<forall>n\<in>{..<16}. of_char (hexString ! n) = (if n < 10 then 48 + n else 87 + n)"
  by (simp add: lessThan_nat_numeral lessThan_Suc hexString_def)

lemma hexString_nth:
  assumes "n < 16"
  shows "of_char (hexString ! n) = (if n < 10 then 48 + n else 87 + n)"
  using assms hexString_table by (simp only: lessThan_iff Ball_def)

lemma hexString_less:
  assumes "a < 16" "b < 16"
  shows "hexString ! a < hexString ! b \<longleftrightarrow> a < b"
  using assms by (simp add: less_char_def hexString_nth)

lemma hexString_eq:
  assumes "a < 16" "b < 16"
  shows "hexString ! a = hexString ! b \<longleftrightarrow> a = b"
proof
  assume "hexString ! a = hexString ! b"
  then have "(of_char (hexString ! a) :: nat) = of_char (hexString ! b)" by simp
  with assms show "a = b" by (simp add: hexString_nth split: if_splits)
qed simp

lemma nibble_less: "nibble x k < 16"
  by (simp add: nibble_def)

lemma mod_16_Suc: "x mod 16 ^ Suc n = nibble x n * 16 ^ n + x mod 16 ^ n"
proof -
  have "x mod 16 ^ Suc n = x mod (16 ^ n * 16)"
    by (simp only: power_Suc mult.commute)
  also have "\<dots> = 16 ^ n * (x div 16 ^ n mod 16) + x mod 16 ^ n"
    by (rule mod_mult2_eq)
  finally show ?thesis
    by (simp only: nibble_def mult.commute)
qed

lemma length_hex: "length (hex n x) = n"
  by (simp add: hex_def)

lemma digit_compare:
  fixes a b r s m :: nat
  assumes "r < m" "s < m"
  shows "a * m + r < b * m + s \<longleftrightarrow> a < b \<or> (a = b \<and> r < s)"
    and "a * m + r = b * m + s \<longleftrightarrow> a = b \<and> r = s"
proof -
  have lt: "a' * m + r' < b' * m + s'" if "a' < b'" "r' < m" for a' b' r' s' :: nat
  proof -
    from that have "a' * m + r' < Suc a' * m" by simp
    also from that have "Suc a' * m \<le> b' * m" by (intro mult_le_mono1) simp
    finally show ?thesis by simp
  qed
  have tri: "a < b \<or> a = b \<or> b < a" by arith
  then consider "a < b" | "a = b" | "b < a" by blast
  then show "a * m + r < b * m + s \<longleftrightarrow> a < b \<or> (a = b \<and> r < s)"
  proof cases
    case 1
    with lt [of a b r s] assms show ?thesis by simp
  next
    case 2
    then show ?thesis by simp
  next
    case 3
    with lt [of b a s r] assms show ?thesis by simp
  qed
  from tri show "a * m + r = b * m + s \<longleftrightarrow> a = b \<and> r = s"
    using lt [of a b r s] lt [of b a s r] assms by auto
qed

lemma hex_less: "hex n x < hex n y \<longleftrightarrow> x mod 16 ^ n < y mod 16 ^ n"
  and hex_eq: "hex n x = hex n y \<longleftrightarrow> x mod 16 ^ n = y mod 16 ^ n"
proof (induction n)
  case 0
  { case 1 show ?case by (simp add: hex_0) }
  { case 2 show ?case by (simp add: hex_0) }
next
  case (Suc n)
  have r: "x mod 16 ^ n < 16 ^ n" "y mod 16 ^ n < 16 ^ n" by simp_all
  { case 1 show ?case
    by (simp only: hex_Suc Cons_less_Cons mod_16_Suc digit_compare(1) [OF r]
        hexString_less [OF nibble_less nibble_less] hexString_eq [OF nibble_less nibble_less] Suc.IH) }
  { case 2 show ?case
    by (simp only: hex_Suc list.inject mod_16_Suc digit_compare(2) [OF r]
        hexString_eq [OF nibble_less nibble_less] Suc.IH) }
qed

lemma append_less_iff:
  fixes a a' b b' :: "'a::linorder list"
  assumes "length a = length a'"
  shows "a @ b < a' @ b' \<longleftrightarrow> a < a' \<or> (a = a' \<and> b < b')"
  using assms by (induction a a' rule: list_induct2) auto

lemma unat_drop_bit_div: "unat (drop_bit n (w :: 'a::len word)) = unat w div 2 ^ n"
  by (simp only: unat_drop_bit_eq) (simp add: drop_bit_eq_div)

lemma unat_take_bit_mod: "unat (take_bit n (w :: 'a::len word)) = unat w mod 2 ^ n"
  by (simp only: unsigned_take_bit_eq) (simp add: take_bit_eq_mod)

lemma hex2_less: "hex 2 (unat (a :: byte)) < hex 2 (unat (b :: byte)) \<longleftrightarrow> a < b"
  and hex2_eq: "hex 2 (unat a) = hex 2 (unat b) \<longleftrightarrow> a = b"
proof -
  have "unat a < 256" "unat b < 256"
    using unsigned_less [of a, where 'a = nat] unsigned_less [of b, where 'a = nat] by simp_all
  then show "hex 2 (unat a) < hex 2 (unat b) \<longleftrightarrow> a < b" "hex 2 (unat a) = hex 2 (unat b) \<longleftrightarrow> a = b"
    by (simp_all add: hex_less hex_eq word_less_nat_alt word_unat_eq_iff)
qed

lemma hex7_less: "hex 7 (unat (a :: 32 word) div 16) < hex 7 (unat (b :: 32 word) div 16) \<longleftrightarrow> drop_bit 4 a < drop_bit 4 b"
  and hex7_eq: "hex 7 (unat a div 16) = hex 7 (unat b div 16) \<longleftrightarrow> drop_bit 4 a = drop_bit 4 b"
proof -
  have "unat a < 2 ^ 32" "unat b < 2 ^ 32"
    using unsigned_less [of a, where 'a = nat] unsigned_less [of b, where 'a = nat] by simp_all
  then have "unat a div 16 < 16 ^ 7" "unat b div 16 < 16 ^ 7"
    by simp_all
  moreover have "unat (drop_bit 4 a) = unat a div 16" "unat (drop_bit 4 b) = unat b div 16"
    by (simp_all only: unat_drop_bit_div) simp_all
  ultimately show "hex 7 (unat a div 16) < hex 7 (unat b div 16) \<longleftrightarrow> drop_bit 4 a < drop_bit 4 b"
    "hex 7 (unat a div 16) = hex 7 (unat b div 16) \<longleftrightarrow> drop_bit 4 a = drop_bit 4 b"
    by (simp_all add: hex_less hex_eq word_less_nat_alt word_unat_eq_iff)
qed

lemma hex12_less: "hex 12 (unat (a :: 64 word)) < hex 12 (unat (b :: 64 word)) \<longleftrightarrow> take_bit 48 a < take_bit 48 b"
  and hex12_eq: "hex 12 (unat a) = hex 12 (unat b) \<longleftrightarrow> take_bit 48 a = take_bit 48 b"
proof -
  have "unat (take_bit 48 a) = unat a mod 16 ^ 12" "unat (take_bit 48 b) = unat b mod 16 ^ 12"
    by (simp_all only: unat_take_bit_mod) simp_all
  then show "hex 12 (unat a) < hex 12 (unat b) \<longleftrightarrow> take_bit 48 a < take_bit 48 b"
    "hex 12 (unat a) = hex 12 (unat b) \<longleftrightarrow> take_bit 48 a = take_bit 48 b"
    by (simp_all add: hex_less hex_eq word_less_nat_alt word_unat_eq_iff)
qed

text \<open>
  The order of two encodings: by the low 48 bits of the timestamp, then by the sequence
  without its low 4 bits, then by the discriminator, byte by byte.
\<close>

lemma String_less_iff:
  "String x < String y \<longleftrightarrow>
     take_bit 48 (Timestamp x) < take_bit 48 (Timestamp y) \<or>
     take_bit 48 (Timestamp x) = take_bit 48 (Timestamp y) \<and>
       (drop_bit 4 (seqNo x) < drop_bit 4 (seqNo y) \<or>
        drop_bit 4 (seqNo x) = drop_bit 4 (seqNo y) \<and>
          hw_bytes (hwAddr x) < hw_bytes (hwAddr y))"
proof -
  obtain ts s h where x: "x = \<lparr>Timestamp = ts, seqNo = s, hwAddr = h\<rparr>" by (cases x) simp
  obtain ts' s' h' where y: "y = \<lparr>Timestamp = ts', seqNo = s', hwAddr = h'\<rparr>" by (cases y) simp
  obtain a0 a1 a2 a3 a4 a5 where h: "h = HwAddr a0 a1 a2 a3 a4 a5" by (cases h) simp
  obtain b0 b1 b2 b3 b4 b5 where h': "h' = HwAddr b0 b1 b2 b3 b4 b5" by (cases h') simp
  show ?thesis
    unfolding x y h h' String_eq
    by (simp add: append_less_iff length_hex hex2_less hex2_eq hex7_less hex7_eq hex12_less hex12_eq)
qed

lemma String_eq_iff:
  "String x = String y \<longleftrightarrow>
     take_bit 48 (Timestamp x) = take_bit 48 (Timestamp y) \<and>
     drop_bit 4 (seqNo x) = drop_bit 4 (seqNo y) \<and> hwAddr x = hwAddr y"
proof -
  obtain ts s h where x: "x = \<lparr>Timestamp = ts, seqNo = s, hwAddr = h\<rparr>" by (cases x) simp
  obtain ts' s' h' where y: "y = \<lparr>Timestamp = ts', seqNo = s', hwAddr = h'\<rparr>" by (cases y) simp
  obtain a0 a1 a2 a3 a4 a5 where h: "h = HwAddr a0 a1 a2 a3 a4 a5" by (cases h) simp
  obtain b0 b1 b2 b3 b4 b5 where h': "h' = HwAddr b0 b1 b2 b3 b4 b5" by (cases h') simp
  show ?thesis
    unfolding x y h h' String_eq
    by (simp add: length_hex hex2_eq hex7_eq hex12_eq)
qed

lemma take_bit_48_succ:
  fixes t :: "64 word"
  assumes "take_bit 48 t \<noteq> 0xFFFFFFFFFFFF"
  shows "take_bit 48 t < take_bit 48 (t + 1)"
proof -
  let ?x = "unat t"
  have ne: "?x mod 2 ^ 48 \<noteq> 2 ^ 48 - 1"
  proof
    assume "?x mod 2 ^ 48 = 2 ^ 48 - 1"
    then have "unat (take_bit 48 t) = unat (0xFFFFFFFFFFFF :: 64 word)"
      by (simp add: unat_take_bit_mod)
    then have "take_bit 48 t = 0xFFFFFFFFFFFF" by (simp only: word_unat_eq_iff)
    with assms show False by simp
  qed
  have "unat (t + 1) = Suc ?x mod 2 ^ 64"
    by (simp add: unat_word_ariths)
  then have "unat (take_bit 48 (t + 1)) = Suc ?x mod 2 ^ 64 mod 2 ^ 48"
    by (simp only: unat_take_bit_mod)
  also have "\<dots> = Suc ?x mod 2 ^ 48"
    by (rule mod_mod_cancel) simp
  also have "\<dots> = Suc (?x mod 2 ^ 48)"
    using ne by (simp add: mod_Suc)
  finally have "unat (take_bit 48 t) < unat (take_bit 48 (t + 1))"
    by (simp add: unat_take_bit_mod)
  then show ?thesis by (simp only: word_less_nat_alt)
qed

lemma byte_le_FF: "(b :: byte) \<le> 0xFF"
proof -
  have "unat b < 256" using unsigned_less [of b, where 'a = nat] by simp
  then show ?thesis by (simp add: word_le_nat_alt)
qed

lemma drop_bit_4_le: "drop_bit 4 (s :: 32 word) \<le> drop_bit 4 0xFFFFFFFF"
proof -
  have "unat s < 2 ^ 32" using unsigned_less [of s, where 'a = nat] by simp
  then have "unat s div 16 \<le> 268435455" by simp
  moreover have "unat (drop_bit 4 (0xFFFFFFFF :: 32 word)) = 268435455"
    by (simp only: unat_drop_bit_div) simp
  ultimately show ?thesis
    by (simp only: word_le_nat_alt unat_drop_bit_div) simp
qed

lemma hw_bytes_ge: "hw_bytes (HwAddr 0 0 0 0 0 0) \<le> hw_bytes h"
  by (cases h) (auto simp add: word_gt_0)

lemma hw_bytes_gt: "h \<noteq> HwAddr 0 0 0 0 0 0 \<Longrightarrow> hw_bytes (HwAddr 0 0 0 0 0 0) < hw_bytes h"
  by (cases h) (auto simp add: word_gt_0)

lemma less_FF: "(b :: byte) < 0xFF \<longleftrightarrow> b \<noteq> 0xFF"
  using byte_le_FF [of b] by (auto simp add: less_le)

lemma hw_bytes_le: "hw_bytes h \<le> hw_bytes (HwAddr 0xFF 0xFF 0xFF 0xFF 0xFF 0xFF)"
  by (cases h) (auto simp add: less_FF)

lemma hw_bytes_lt:
  "h \<noteq> HwAddr 0xFF 0xFF 0xFF 0xFF 0xFF 0xFF \<Longrightarrow>
   hw_bytes h < hw_bytes (HwAddr 0xFF 0xFF 0xFF 0xFF 0xFF 0xFF)"
  by (cases h) (auto simp add: less_FF)

lemma String_le_iff:
  "String x \<le> String y \<longleftrightarrow>
     (take_bit 48 (Timestamp x) < take_bit 48 (Timestamp y) \<or>
     take_bit 48 (Timestamp x) = take_bit 48 (Timestamp y) \<and>
       (drop_bit 4 (seqNo x) < drop_bit 4 (seqNo y) \<or>
        drop_bit 4 (seqNo x) = drop_bit 4 (seqNo y) \<and>
          hw_bytes (hwAddr x) \<le> hw_bytes (hwAddr y)))"
  (is "_ \<longleftrightarrow> ?rhs")
proof -
  have "hw_bytes h = hw_bytes h' \<longleftrightarrow> h = h'" for h h'
    by (cases h; cases h') simp
  then have e: "String x = String y \<longleftrightarrow>
      take_bit 48 (Timestamp x) = take_bit 48 (Timestamp y) \<and>
      drop_bit 4 (seqNo x) = drop_bit 4 (seqNo y) \<and> hw_bytes (hwAddr x) = hw_bytes (hwAddr y)"
    by (simp only: String_eq_iff)
  have "String x \<le> String y \<longleftrightarrow> String x < String y \<or> String x = String y"
    by (rule le_less)
  also have "\<dots> \<longleftrightarrow> ?rhs"
    unfolding String_less_iff e le_less [of "hw_bytes (hwAddr x)"] by blast
  finally show ?thesis .
qed


section \<open>The constructors\<close>

lemma fst_NewUniqueTimestamp:
  "fst (NewUniqueTimestamp g t) =
     \<lparr>Timestamp = t, seqNo = global_seqNo g + 1, hwAddr = global_hwAddr g\<rparr>"
  by (simp add: NewUniqueTimestamp_def Let_def)

lemma snd_NewUniqueTimestamp:
  "snd (NewUniqueTimestamp g t) = g\<lparr>global_seqNo := global_seqNo g + 1\<rparr>"
  by (simp add: NewUniqueTimestamp_def Let_def)

lemma NewUniqueTimestamps_Cons:
  "fst (NewUniqueTimestamps g (t # ts)) =
     fst (NewUniqueTimestamp g t) # fst (NewUniqueTimestamps (snd (NewUniqueTimestamp g t)) ts)"
  "snd (NewUniqueTimestamps g (t # ts)) = snd (NewUniqueTimestamps (snd (NewUniqueTimestamp g t)) ts)"
  by (simp_all add: case_prod_unfold Let_def)

text \<open>
  The sequences a run of calls returns are the counter plus 1, 2, 3 and so on, modulo
  \<open>2 ^ 32\<close>: distinct for up to \<open>2 ^ 32\<close> calls, and repeated after that.
\<close>

lemma seq_of_calls:
  "map seqNo (fst (NewUniqueTimestamps g ts)) =
     map (\<lambda>k. global_seqNo g + 1 + of_nat k) [0..<length ts]"
proof (induction ts arbitrary: g)
  case Nil
  show ?case by simp
next
  case (Cons t ts)
  show ?case
    by (simp only: NewUniqueTimestamps_Cons list.map length_Cons map_upt_Suc Cons.IH)
      (simp add: fst_NewUniqueTimestamp snd_NewUniqueTimestamp ac_simps)
qed

lemma globals_of_calls:
  "global_seqNo (snd (NewUniqueTimestamps g ts)) = global_seqNo g + of_nat (length ts)"
  "global_hwAddr (snd (NewUniqueTimestamps g ts)) = global_hwAddr g"
  by (induction ts arbitrary: g)
    (simp_all only: NewUniqueTimestamps_Cons, simp_all add: snd_NewUniqueTimestamp)

lemma distinct_calls:
  assumes "length ts \<le> 2 ^ 32"
  shows "distinct (map seqNo (fst (NewUniqueTimestamps g ts)))"
proof -
  have "inj_on (\<lambda>k. global_seqNo g + 1 + (of_nat k :: 32 word)) {..<2 ^ 32}"
  proof (rule inj_onI)
    fix j k :: nat
    assume "j \<in> {..<2 ^ 32}" "k \<in> {..<2 ^ 32}"
      and "global_seqNo g + 1 + (of_nat j :: 32 word) = global_seqNo g + 1 + of_nat k"
    then have "(of_nat j :: 32 word) = of_nat k" "j < 2 ^ 32" "k < 2 ^ 32" by simp_all
    then have "unat (of_nat j :: 32 word) = unat (of_nat k :: 32 word)" by simp
    with \<open>j < 2 ^ 32\<close> \<open>k < 2 ^ 32\<close> show "j = k"
      by (simp add: unat_of_nat)
  qed
  then have "inj_on (\<lambda>k. global_seqNo g + 1 + (of_nat k :: 32 word)) (set [0..<length ts])"
    using assms by (auto intro: inj_on_subset)
  then show ?thesis
    by (simp add: seq_of_calls distinct_map)
qed

lemma sequence_reused:
  assumes "2 ^ 32 < length ts"
  shows "\<not> distinct (map seqNo (fst (NewUniqueTimestamps g ts)))"
proof -
  let ?f = "\<lambda>k. global_seqNo g + 1 + (of_nat k :: 32 word)"
  have "?f 0 = ?f (2 ^ 32)" by simp
  moreover from assms have "0 < length ts" by (rule less_trans [rotated]) simp
  with assms have "0 < length (map ?f [0..<length ts])" "2 ^ 32 < length (map ?f [0..<length ts])"
    "map ?f [0..<length ts] ! 0 = ?f 0" "map ?f [0..<length ts] ! (2 ^ 32) = ?f (2 ^ 32)"
    by simp_all
  ultimately have "\<not> distinct (map ?f [0..<length ts])"
    unfolding distinct_conv_nth by (metis zero_neq_numeral power_eq_0_iff)
  then show ?thesis by (simp add: seq_of_calls)
qed

lemma MinUniqueTimestamp_le: "String (MinUniqueTimestamp t) \<le> String (fst (NewUniqueTimestamp g t))"
  using hw_bytes_ge [of "global_hwAddr g"]
  by (simp add: String_le_iff fst_NewUniqueTimestamp MinUniqueTimestamp_def word_gt_0)

lemma MinUniqueTimestamp_less:
  "global_hwAddr g \<noteq> HwAddr 0 0 0 0 0 0 \<Longrightarrow>
   String (MinUniqueTimestamp t) < String (fst (NewUniqueTimestamp g t))"
  using hw_bytes_gt [of "global_hwAddr g"]
  by (simp add: String_less_iff fst_NewUniqueTimestamp MinUniqueTimestamp_def word_gt_0)

lemma MaxUniqueTimestamp_le: "String (fst (NewUniqueTimestamp g t)) \<le> String (MaxUniqueTimestamp t)"
  using hw_bytes_le [of "global_hwAddr g"] drop_bit_4_le [of "global_seqNo g + 1"]
  by (simp only: String_le_iff fst_NewUniqueTimestamp MaxUniqueTimestamp_def
      UniqueTimestamp.simps le_less [of "drop_bit 4 (global_seqNo g + 1)"]) blast

lemma MaxUniqueTimestamp_less:
  "global_hwAddr g \<noteq> HwAddr 0xFF 0xFF 0xFF 0xFF 0xFF 0xFF \<Longrightarrow>
   String (fst (NewUniqueTimestamp g t)) < String (MaxUniqueTimestamp t)"
  using hw_bytes_lt [of "global_hwAddr g"] drop_bit_4_le [of "global_seqNo g + 1"]
  by (simp only: String_less_iff fst_NewUniqueTimestamp MaxUniqueTimestamp_def
      UniqueTimestamp.simps le_less [of "drop_bit 4 (global_seqNo g + 1)"]) blast

section \<open>What \<^verbatim>\<open>FromString\<close> rejects\<close>

lemma Split_not_Nil: "Split s c \<noteq> []"
  by (induction s) (simp_all split: list.splits)

lemma length_Split: "length (Split s c) = Suc (count_list s c)"
  by (induction s) (auto simp add: Split_not_Nil split: list.splits)

lemma digit_value_hex:
  "isHexDigit c \<longleftrightarrow> (\<exists>d. digit_value c = Some d \<and> d < 16)"
  by (auto simp add: isHexDigit_def digit_value_def less_eq_char_def)

lemma ParseUint_loop_hex:
  "ParseUint_loop 16 cutoff maxVal s n = Inr v \<Longrightarrow> list_all isHexDigit s"
proof (induction s arbitrary: n)
  case Nil
  show ?case by simp
next
  case (Cons c s)
  then show ?case
    by (auto simp add: digit_value_hex Let_def split: option.splits if_splits)
qed

lemma ParseUint_hex:
  "ParseUint s 16 bitSize = Inr v \<Longrightarrow> s \<noteq> [] \<and> list_all isHexDigit s"
  by (auto simp add: ParseUint_def dest: ParseUint_loop_hex split: if_splits)

lemma ParseInt_hex:
  "ParseInt s 16 bitSize = Inr v \<Longrightarrow> strip_sign s \<noteq> [] \<and> list_all isHexDigit (strip_sign s)"
  by (auto simp add: ParseInt_def strip_sign_def Let_def dest!: ParseUint_hex
      split: if_splits sum.splits NumError.splits)

lemma FromString_hwAddr_Nil:
  "fst (FromString_hwAddr p is u) = ReturnNil \<Longrightarrow> i \<in> set is \<Longrightarrow>
     list_all isHexDigit (take 2 (drop (2 * i) p))"
proof (induction "is" arbitrary: u)
  case Nil
  then show ?case by simp
next
  case (Cons j js)
  then show ?case
    by (auto dest: ParseUint_hex split: if_splits sum.splits)
qed

lemma FromString_hwAddr_no_Panic:
  "\<forall>i\<in>set is. 2 * i + 2 \<le> length p \<Longrightarrow> fst (FromString_hwAddr p is u) \<noteq> Panic"
  by (induction "is" arbitrary: u) (auto split: sum.splits)

lemma take_12_hex:
  assumes "\<And>i. i < 6 \<Longrightarrow> list_all isHexDigit (take 2 (drop (2 * i) p))"
  shows "list_all isHexDigit (take 12 p)"
proof -
  have "take 12 p = take (2 + (2 + (2 + (2 + (2 + 2))))) p"
    by simp
  also have "\<dots> = take 2 p @ take 2 (drop 2 p) @ take 2 (drop 2 (drop 2 p)) @
      take 2 (drop 2 (drop 2 (drop 2 p))) @ take 2 (drop 2 (drop 2 (drop 2 (drop 2 p)))) @
      take 2 (drop 2 (drop 2 (drop 2 (drop 2 (drop 2 p)))))"
    by (simp only: take_add)
  finally show ?thesis
    using assms [of 0] assms [of 1] assms [of 2] assms [of 3] assms [of 4] assms [of 5]
    by simp
qed

section \<open>Parsing an encoding\<close>

lemma digit_value_table: "\<forall>d\<in>{..<16}. digit_value (hexString ! d) = Some d"
  by (simp add: lessThan_nat_numeral lessThan_Suc hexString_def digit_value_def less_eq_char_def)

lemma digit_value_hexString: "d < 16 \<Longrightarrow> digit_value (hexString ! d) = Some d"
  using digit_value_table by (simp only: lessThan_iff Ball_def)

lemma hexString_not_sep:
  assumes "d < 16"
  shows "hexString ! d \<noteq> CHR ''-''" "hexString ! d \<noteq> CHR ''+''"
proof -
  have "(of_char (hexString ! d) :: nat) \<ge> 48" using assms by (simp add: hexString_nth)
  then show "hexString ! d \<noteq> CHR ''-''" "hexString ! d \<noteq> CHR ''+''" by auto
qed

lemma hex_no_sep: "CHR ''-'' \<notin> set (hex n x)"
proof
  assume "CHR ''-'' \<in> set (hex n x)"
  then obtain k where "hexString ! nibble x k = CHR ''-''" by (auto simp add: hex_def)
  with hexString_not_sep(1) [OF nibble_less, of x k] show False by simp
qed

lemma Split_no_sep: "c \<notin> set a \<Longrightarrow> Split a c = [a]"
  by (induction a) auto

lemma Split_sep: "c \<notin> set a \<Longrightarrow> Split (a @ c # b) c = a # Split b c"
  by (induction a) auto

lemma ParseUint_loop_hex_value:
  assumes "unat acc * 16 ^ n + x mod 16 ^ n \<le> unat maxVal"
  shows "ParseUint_loop 16 (2 ^ 60) maxVal (hex n x) acc = Inr (of_nat (unat acc * 16 ^ n + x mod 16 ^ n))"
  using assms
proof (induction n arbitrary: acc)
  case 0
  show ?case by (simp add: hex_0)
next
  case (Suc n)
  let ?d = "nibble x n"
  have d: "?d < 16" by (rule nibble_less)
  have mx: "unat maxVal < 2 ^ 64" using unsigned_less [of maxVal, where 'a = nat] by simp
  have split: "unat acc * 16 ^ Suc n + x mod 16 ^ Suc n = (unat acc * 16 + ?d) * 16 ^ n + x mod 16 ^ n"
    unfolding mod_16_Suc by (simp add: algebra_simps)
  have "unat acc * 16 + ?d \<le> (unat acc * 16 + ?d) * 16 ^ n" by simp
  with Suc.prems split have le: "unat acc * 16 + ?d \<le> unat maxVal" by linarith
  with mx have small: "unat acc * 16 + ?d < 2 ^ 64" by linarith
  then have acc: "unat acc < 2 ^ 60" by simp
  have u1: "unat (acc * 16) = unat acc * 16"
    using small by (simp add: unat_word_ariths)
  have u2: "unat (acc * 16 + of_nat ?d) = unat acc * 16 + ?d"
    using small d by (simp add: unat_word_ariths unat_of_nat)
  have c1: "\<not> acc \<ge> 2 ^ 60" using acc by (simp add: word_le_nat_alt)
  have c2: "\<not> acc * 16 + of_nat ?d < acc * 16" by (simp add: word_less_nat_alt u1 u2)
  have c3: "\<not> acc * 16 + of_nat ?d > maxVal" using le by (simp add: word_less_nat_alt u2)
  have "ParseUint_loop 16 (2 ^ 60) maxVal (hex (Suc n) x) acc =
      ParseUint_loop 16 (2 ^ 60) maxVal (hex n x) (acc * 16 + of_nat ?d)"
    using d c1 c2 c3 by (simp add: hex_Suc digit_value_hexString Let_def)
  also have "\<dots> = Inr (of_nat (unat (acc * 16 + of_nat ?d) * 16 ^ n + x mod 16 ^ n))"
    using Suc.prems by (intro Suc.IH) (simp only: u2 split)
  finally show ?case by (simp only: u2 split)
qed

lemma ParseUint_hex_value:
  assumes "0 < n" "x mod 16 ^ n \<le> unat (push_bit bitSize 1 - 1 :: 64 word)"
  shows "ParseUint (hex n x) 16 bitSize = Inr (of_nat (x mod 16 ^ n))"
proof -
  have cutoff: "(- 1 :: 64 word) div of_nat 16 + 1 = 2 ^ 60" by simp
  from assms(2) have "unat (0 :: 64 word) * 16 ^ n + x mod 16 ^ n \<le> unat (push_bit bitSize 1 - 1 :: 64 word)"
    by simp
  from ParseUint_loop_hex_value [OF this] assms(1) show ?thesis
    by (cases n) (simp_all add: ParseUint_def cutoff hex_Suc)
qed

lemma ucast_64_8: "ucast (ucast (b :: byte) :: 64 word) = b"
  by (simp add: ucast_up_ucast_id is_up)

lemma ucast_64_32: "ucast (ucast (s :: 32 word) :: 64 word) = s"
  by (simp add: ucast_up_ucast_id is_up)

lemma ParseInt_hex12:
  "ParseInt (hex 12 (unat (ts :: 64 word))) 16 64 = Inr (take_bit 48 ts)"
proof -
  let ?v = "unat ts mod 16 ^ 12"
  have v: "?v < 2 ^ 48" by simp
  have w: "(of_nat ?v :: 64 word) = take_bit 48 ts"
    by (simp add: word_unat_eq_iff unat_take_bit_mod unat_of_nat)
  have "ParseUint (hex 12 (unat ts)) 16 64 = Inr (of_nat ?v)"
    using v by (intro ParseUint_hex_value) simp_all
  then have "ParseUint (hex 12 (unat ts)) 16 64 = Inr (take_bit 48 ts)"
    by (simp only: w)
  moreover have "hex 12 (unat ts) \<noteq> []" "hd (hex 12 (unat ts)) \<noteq> CHR ''-''" "hd (hex 12 (unat ts)) \<noteq> CHR ''+''"
    using hexString_not_sep [OF nibble_less, of "unat ts" 11] by (simp_all add: hex_numeral)
  moreover have "\<not> take_bit 48 ts \<ge> (push_bit (64 - 1) 1 :: 64 word)"
    using v by (simp add: word_le_nat_alt unat_take_bit_mod)
  ultimately show ?thesis
    by (simp add: ParseInt_def Let_def)
qed

lemma ParseUint_hex7:
  "ParseUint (hex 7 (unat (s :: 32 word) div 16)) 16 32 = Inr (ucast (drop_bit 4 s))"
proof -
  let ?v = "unat s div 16"
  have "unat s < 2 ^ 32" using unsigned_less [of s, where 'a = nat] by simp
  then have v: "?v < 16 ^ 7" by simp
  then have m: "?v mod 16 ^ 7 = ?v" by simp
  have "ParseUint (hex 7 ?v) 16 32 = Inr (of_nat (?v mod 16 ^ 7))"
    using v by (intro ParseUint_hex_value) simp_all
  moreover have "(of_nat ?v :: 64 word) = ucast (drop_bit 4 s)"
    by (simp only: unat_drop_bit_div [symmetric, of s 4, simplified]) simp
  ultimately show ?thesis by (simp only: m)
qed

lemma ParseUint_hex2:
  "ParseUint (hex 2 (unat (b :: byte))) 16 8 = Inr (ucast b)"
proof -
  have v: "unat b < 16 ^ 2" using unsigned_less [of b, where 'a = nat] by simp
  then have m: "unat b mod 16 ^ 2 = unat b" by simp
  have "ParseUint (hex 2 (unat b)) 16 8 = Inr (of_nat (unat b mod 16 ^ 2))"
    using v by (intro ParseUint_hex_value) simp_all
  then show ?thesis by (simp only: m) simp
qed

lemma FromString_hwAddr_hex:
  "FromString_hwAddr
     (hex 2 (unat b0) @ hex 2 (unat b1) @ hex 2 (unat b2) @
      hex 2 (unat b3) @ hex 2 (unat b4) @ hex 2 (unat b5) @ rest) [0..<6] u =
   (ReturnNil, u\<lparr>hwAddr := HwAddr b0 b1 b2 b3 b4 b5\<rparr>)"
  by (cases "hwAddr u") (simp add: upt_0_6 length_hex ParseUint_hex2 ucast_64_8)

text \<open>
  What \<^verbatim>\<open>FromString\<close> makes of an encoding, for every identifier and every receiver: it
  returns \<^verbatim>\<open>nil\<close>, with the low 48 bits of the timestamp, the sequence shifted right by
  4 bits, and the discriminator.
\<close>

lemma FromString_String:
  "FromString u (String x) =
     (ReturnNil, \<lparr>Timestamp = take_bit 48 (Timestamp x), seqNo = drop_bit 4 (seqNo x),
                  hwAddr = hwAddr x\<rparr>)"
proof -
  obtain ts s h where x: "x = \<lparr>Timestamp = ts, seqNo = s, hwAddr = h\<rparr>" by (cases x) simp
  obtain b0 b1 b2 b3 b4 b5 where h: "h = HwAddr b0 b1 b2 b3 b4 b5" by (cases h) simp
  let ?p2 = "hex 2 (unat b0) @ hex 2 (unat b1) @ hex 2 (unat b2) @
     hex 2 (unat b3) @ hex 2 (unat b4) @ hex 2 (unat b5) @ [CHR 0x00]"
  have "CHR ''-'' \<notin> set ?p2" by (simp add: hex_no_sep)
  then have "Split ?p2 (CHR ''-'') = [?p2]" by (rule Split_no_sep)
  then have "Split (String x) (CHR ''-'') = [hex 12 (unat ts), hex 7 (unat s div 16), ?p2]"
    unfolding x h String_eq
    by (simp add: Split_sep [OF hex_no_sep])
  then show ?thesis
    unfolding x h
    by (cases u) (simp add: FromString_def ParseInt_hex12 ParseUint_hex7 FromString_hwAddr_hex ucast_64_32)
qed

section \<open>The claims\<close>

text \<open>
  Claim C1 (round trip). The claim: \<^verbatim>\<open>FromString\<close> of \<^verbatim>\<open>String(x)\<close> succeeds and gives back
  the timestamp modulo \<open>2 ^ 48\<close>, the sequence and the discriminator of \<open>x\<close>. On the
  identifier with timestamp \<open>0x543cef9f\<close>, sequence \<open>0xb9d5\<close> and discriminator
  \<open>c4 2c 03 19 bd be\<close> the parse succeeds, but the sequence that comes back is \<open>0xb9d\<close>:
  \<^verbatim>\<open>String\<close> overwrites the last digit of the sequence with the second separator.
\<close>

theorem FromString_String_loses_sequence_bits:
  "FromString \<lparr>Timestamp = 0, seqNo = 0, hwAddr = HwAddr 0 0 0 0 0 0\<rparr>
     (String \<lparr>Timestamp = 0x543cef9f, seqNo = 0xb9d5,
              hwAddr = HwAddr 0xc4 0x2c 0x03 0x19 0xbd 0xbe\<rparr>) =
   (ReturnNil, \<lparr>Timestamp = 0x543cef9f, seqNo = 0xb9d,
                hwAddr = HwAddr 0xc4 0x2c 0x03 0x19 0xbd 0xbe\<rparr>)"
  by code_simp

text \<open>
  Claim C2 (wire format). The claim: 34 characters, \<^verbatim>\<open>-\<close> at positions 12 and 21, eight
  digits of sequence between them, and only lowercase hexadecimal digits elsewhere. The
  encoding of the same identifier has 34 bytes, but its separators are at positions 12
  and 20, the middle part has seven digits, and the last byte is the zero byte, which
  \<^verbatim>\<open>String\<close> never writes.
\<close>

theorem String_example:
  "String \<lparr>Timestamp = 0x543cef9f, seqNo = 0xb9d5,
           hwAddr = HwAddr 0xc4 0x2c 0x03 0x19 0xbd 0xbe\<rparr> =
   ''0000543cef9f-0000b9d-c42c0319bdbe'' @ [CHR 0x00]"
  by code_simp

text \<open>
  Claim C3 (order for equal timestamps). The claim: for equal timestamps the encodings
  compare as the pairs of sequence and discriminator do. Two identifiers with the same
  timestamp, the first with the smaller sequence, whose encodings are in the opposite
  order: the sequences \<open>0x10\<close> and \<open>0x11\<close> differ only in the digit that is not
  encoded, so the discriminators decide.
\<close>

theorem String_order_ignores_low_sequence_bits:
  "seqNo \<lparr>Timestamp = 0x543cef9f, seqNo = 0x10, hwAddr = HwAddr 0xFF 0xFF 0xFF 0xFF 0xFF 0xFF\<rparr>
     < seqNo \<lparr>Timestamp = 0x543cef9f, seqNo = 0x11, hwAddr = HwAddr 0 0 0 0 0 0\<rparr> \<and>
   String \<lparr>Timestamp = 0x543cef9f, seqNo = 0x11, hwAddr = HwAddr 0 0 0 0 0 0\<rparr>
     < String \<lparr>Timestamp = 0x543cef9f, seqNo = 0x10, hwAddr = HwAddr 0xFF 0xFF 0xFF 0xFF 0xFF 0xFF\<rparr>"
  by code_simp

text \<open>
  Claim C4 (order across timestamps), as amended. For two identifiers whose timestamps
  differ in their low 48 bits, the encodings compare as those 48-bit values do, whatever
  the sequences and discriminators; and when the low 48 bits of \<open>t\<close> are not all ones,
  the encoding of an identifier made for \<open>t\<close> is below that of one made for \<open>t + 1\<close>.
\<close>

theorem String_timestamp_order:
  "(take_bit 48 (Timestamp x) \<noteq> take_bit 48 (Timestamp y) \<longrightarrow>
      (String x < String y \<longleftrightarrow> take_bit 48 (Timestamp x) < take_bit 48 (Timestamp y))) \<and>
   (take_bit 48 t \<noteq> 0xFFFFFFFFFFFF \<longrightarrow>
      String (fst (NewUniqueTimestamp g t)) < String (fst (NewUniqueTimestamp g' (t + 1))))"
proof (intro conjI impI)
  assume "take_bit 48 (Timestamp x) \<noteq> take_bit 48 (Timestamp y)"
  then show "String x < String y \<longleftrightarrow> take_bit 48 (Timestamp x) < take_bit 48 (Timestamp y)"
    by (simp add: String_less_iff)
next
  assume "take_bit 48 t \<noteq> 0xFFFFFFFFFFFF"
  then have "take_bit 48 t < take_bit 48 (t + 1)" by (rule take_bit_48_succ)
  then show "String (fst (NewUniqueTimestamp g t)) < String (fst (NewUniqueTimestamp g' (t + 1)))"
    by (simp add: String_less_iff fst_NewUniqueTimestamp)
qed

theorem String_timestamp_order_witness:
  "take_bit 48 (Timestamp \<lparr>Timestamp = 0x543cef9f, seqNo = 0xb9d5, hwAddr = HwAddr 0xc4 0x2c 0x03 0x19 0xbd 0xbe\<rparr>) \<noteq>
     take_bit 48 (Timestamp \<lparr>Timestamp = 0x543cefa0, seqNo = 7, hwAddr = HwAddr 0 0 0 0 0 1\<rparr>) \<and>
   String \<lparr>Timestamp = 0x543cef9f, seqNo = 0xb9d5, hwAddr = HwAddr 0xc4 0x2c 0x03 0x19 0xbd 0xbe\<rparr>
     < String \<lparr>Timestamp = 0x543cefa0, seqNo = 7, hwAddr = HwAddr 0 0 0 0 0 1\<rparr> \<and>
   take_bit 48 (0x543cef9f :: 64 word) \<noteq> 0xFFFFFFFFFFFF \<and>
   String (fst (NewUniqueTimestamp \<lparr>global_hwAddr = HwAddr 0xc4 0x2c 0x03 0x19 0xbd 0xbe, global_seqNo = 0xb9d5\<rparr> 0x543cef9f))
     < String (fst (NewUniqueTimestamp \<lparr>global_hwAddr = HwAddr 0xc4 0x2c 0x03 0x19 0xbd 0xbe, global_seqNo = 0xb9d6\<rparr> (0x543cef9f + 1)))"
  using String_timestamp_order
    [of "\<lparr>Timestamp = 0x543cef9f, seqNo = 0xb9d5, hwAddr = HwAddr 0xc4 0x2c 0x03 0x19 0xbd 0xbe\<rparr>"
        "\<lparr>Timestamp = 0x543cefa0, seqNo = 7, hwAddr = HwAddr 0 0 0 0 0 1\<rparr>"
        "0x543cef9f"
        "\<lparr>global_hwAddr = HwAddr 0xc4 0x2c 0x03 0x19 0xbd 0xbe, global_seqNo = 0xb9d5\<rparr>"
        "\<lparr>global_hwAddr = HwAddr 0xc4 0x2c 0x03 0x19 0xbd 0xbe, global_seqNo = 0xb9d6\<rparr>"]
  by simp

text \<open>
  Claim C4 as stated, for every \<open>t\<close>, fails at \<open>t = -1\<close>: the encoded timestamp wraps
  from \<open>ffffffffffff\<close> to \<open>000000000000\<close>.
\<close>

theorem ordering_wraps_counterexample:
  "\<not> String (fst (NewUniqueTimestamp \<lparr>global_hwAddr = HwAddr 0xc4 0x2c 0x03 0x19 0xbd 0xbe, global_seqNo = 0xb9d5\<rparr> (- 1)))
     < String (fst (NewUniqueTimestamp \<lparr>global_hwAddr = HwAddr 0xc4 0x2c 0x03 0x19 0xbd 0xbe, global_seqNo = 0xb9d6\<rparr> (- 1 + 1)))"
  by code_simp

text \<open>
  Claim C5 (bounds for one timestamp), as amended. The encoding of an identifier made
  for \<open>t\<close> is never below that of \<^verbatim>\<open>MinUniqueTimestamp(t)\<close> and never above that of
  \<^verbatim>\<open>MaxUniqueTimestamp(t)\<close>; it is strictly above the first when the discriminator of the
  process is not all zero, and strictly below the second when it is not all \<open>0xFF\<close>.
\<close>

theorem String_between_bounds:
  "String (MinUniqueTimestamp t) \<le> String (fst (NewUniqueTimestamp g t)) \<and>
   String (fst (NewUniqueTimestamp g t)) \<le> String (MaxUniqueTimestamp t) \<and>
   (global_hwAddr g \<noteq> HwAddr 0 0 0 0 0 0 \<longrightarrow>
      String (MinUniqueTimestamp t) < String (fst (NewUniqueTimestamp g t))) \<and>
   (global_hwAddr g \<noteq> HwAddr 0xFF 0xFF 0xFF 0xFF 0xFF 0xFF \<longrightarrow>
      String (fst (NewUniqueTimestamp g t)) < String (MaxUniqueTimestamp t))"
  using MinUniqueTimestamp_le MaxUniqueTimestamp_le MinUniqueTimestamp_less MaxUniqueTimestamp_less
  by blast

theorem String_between_bounds_witness:
  "global_hwAddr \<lparr>global_hwAddr = HwAddr 0xc4 0x2c 0x03 0x19 0xbd 0xbe, global_seqNo = 0xb9d5\<rparr>
     \<noteq> HwAddr 0 0 0 0 0 0 \<and>
   global_hwAddr \<lparr>global_hwAddr = HwAddr 0xc4 0x2c 0x03 0x19 0xbd 0xbe, global_seqNo = 0xb9d5\<rparr>
     \<noteq> HwAddr 0xFF 0xFF 0xFF 0xFF 0xFF 0xFF \<and>
   String (MinUniqueTimestamp 0x543cef9f)
     < String (fst (NewUniqueTimestamp \<lparr>global_hwAddr = HwAddr 0xc4 0x2c 0x03 0x19 0xbd 0xbe, global_seqNo = 0xb9d5\<rparr> 0x543cef9f)) \<and>
   String (fst (NewUniqueTimestamp \<lparr>global_hwAddr = HwAddr 0xc4 0x2c 0x03 0x19 0xbd 0xbe, global_seqNo = 0xb9d5\<rparr> 0x543cef9f))
     < String (MaxUniqueTimestamp 0x543cef9f)"
  using String_between_bounds
    [of "0x543cef9f" "\<lparr>global_hwAddr = HwAddr 0xc4 0x2c 0x03 0x19 0xbd 0xbe, global_seqNo = 0xb9d5\<rparr>"]
  by simp

text \<open>
  Claim C5 as stated, with strict inequalities for every counter value and every
  discriminator, fails when the counter stands at \<open>0xFFFFFFFF\<close> and the discriminator is
  all zero: the next identifier is the lower bound itself.
\<close>

theorem sandwich_counterexample:
  "\<not> String (MinUniqueTimestamp 0x543cef9f)
     < String (fst (NewUniqueTimestamp \<lparr>global_hwAddr = HwAddr 0 0 0 0 0 0, global_seqNo = 0xFFFFFFFF\<rparr> 0x543cef9f))"
  by code_simp

text \<open>
  Claim C6 (bounds of neighbouring timestamps), as amended. When the low 48 bits of
  \<open>t\<close> are not all ones, every identifier made for \<open>t + 1\<close> is encoded above
  \<^verbatim>\<open>MaxUniqueTimestamp(t)\<close>, and every identifier made for \<open>t\<close> is encoded below
  \<^verbatim>\<open>MinUniqueTimestamp(t + 1)\<close>.
\<close>

theorem String_bounds_separate:
  assumes "take_bit 48 t \<noteq> 0xFFFFFFFFFFFF"
  shows "String (MaxUniqueTimestamp t) < String (fst (NewUniqueTimestamp g (t + 1))) \<and>
         String (fst (NewUniqueTimestamp g t)) < String (MinUniqueTimestamp (t + 1))"
  using take_bit_48_succ [OF assms]
  by (simp add: String_less_iff fst_NewUniqueTimestamp MinUniqueTimestamp_def MaxUniqueTimestamp_def)

theorem String_bounds_separate_witness:
  "take_bit 48 (0x543cef9f :: 64 word) \<noteq> 0xFFFFFFFFFFFF \<and>
   String (MaxUniqueTimestamp 0x543cef9f)
     < String (fst (NewUniqueTimestamp \<lparr>global_hwAddr = HwAddr 0xc4 0x2c 0x03 0x19 0xbd 0xbe, global_seqNo = 0xb9d5\<rparr> (0x543cef9f + 1))) \<and>
   String (fst (NewUniqueTimestamp \<lparr>global_hwAddr = HwAddr 0xc4 0x2c 0x03 0x19 0xbd 0xbe, global_seqNo = 0xb9d5\<rparr> 0x543cef9f))
     < String (MinUniqueTimestamp (0x543cef9f + 1))"
proof -
  have h: "take_bit 48 (0x543cef9f :: 64 word) \<noteq> 0xFFFFFFFFFFFF" by simp
  show ?thesis
    using h String_bounds_separate [OF h,
        of "\<lparr>global_hwAddr = HwAddr 0xc4 0x2c 0x03 0x19 0xbd 0xbe, global_seqNo = 0xb9d5\<rparr>"]
    by simp
qed

text \<open>
  Claim C6 as stated, for every \<open>t\<close>, fails at \<open>t = -1\<close>: the encoding of
  \<open>t + 1 = 0\<close> starts with \<open>000000000000\<close>.
\<close>

theorem separation_counterexample:
  "\<not> String (MaxUniqueTimestamp (- 1))
     < String (fst (NewUniqueTimestamp \<lparr>global_hwAddr = HwAddr 0xc4 0x2c 0x03 0x19 0xbd 0xbe, global_seqNo = 0xb9d5\<rparr> (- 1 + 1)))"
  by code_simp

text \<open>
  Claim C7 (length of the third part). The claim: a third part that is not 12 characters
  long gives a parse error, never a crash. With a third part of 10 characters
  \<^verbatim>\<open>FromString\<close> panics on the slice \<^verbatim>\<open>parts[2][10:12]\<close>; with one of 14 characters it
  returns \<^verbatim>\<open>nil\<close>.
\<close>

theorem FromString_short_hwAddr_panics:
  "fst (FromString \<lparr>Timestamp = 0, seqNo = 0, hwAddr = HwAddr 0 0 0 0 0 0\<rparr>
          ''00000543cef9-0000b9d5-c42c0319bd'') = Panic \<and>
   fst (FromString \<lparr>Timestamp = 0, seqNo = 0, hwAddr = HwAddr 0 0 0 0 0 0\<rparr>
          ''00000543cef9-0000b9d5-c42c0319bdbe00'') = ReturnNil"
  by code_simp

text \<open>
  Claim C8 (strict parser), as amended. \<^verbatim>\<open>FromString\<close> returns an error for every string
  with 0, 1, or 3 or more separators; for every string of three parts whose first part,
  without a leading sign, or whose second part is empty or has a character other than
  \<open>0-9\<close>, \<open>a-f\<close>, \<open>A-F\<close>; and for every string of three parts whose third part has at
  least 12 characters, one of the first 12 of them not such a character. The two
  examples of the specification fail as it says.
\<close>

theorem FromString_rejects:
  "(count_list val (CHR ''-'') \<noteq> 2 \<longrightarrow> fst (FromString u val) = ReturnError ErrSeparators) \<and>
   (Split val' (CHR ''-'') = [p0, p1, p2] \<and>
      (strip_sign p0 = [] \<or> \<not> list_all isHexDigit (strip_sign p0) \<or>
       p1 = [] \<or> \<not> list_all isHexDigit p1 \<or>
       12 \<le> length p2 \<and> \<not> list_all isHexDigit (take 12 p2))
    \<longrightarrow> returns_error (fst (FromString u val'))) \<and>
   fst (FromString u ''zz-00000001-000000000000'') = ReturnError (ErrTimestamp ErrSyntax) \<and>
   fst (FromString u ''00000543cef9-0000b9d'') = ReturnError ErrSeparators"
proof (intro conjI impI)
  assume "count_list val (CHR ''-'') \<noteq> 2"
  then show "fst (FromString u val) = ReturnError ErrSeparators"
    by (simp add: FromString_def length_Split)
next
  assume a: "Split val' (CHR ''-'') = [p0, p1, p2] \<and>
      (strip_sign p0 = [] \<or> \<not> list_all isHexDigit (strip_sign p0) \<or>
       p1 = [] \<or> \<not> list_all isHexDigit p1 \<or>
       12 \<le> length p2 \<and> \<not> list_all isHexDigit (take 12 p2))"
  then have parts: "Split val' (CHR ''-'') = [p0, p1, p2]" by simp
  show "returns_error (fst (FromString u val'))"
  proof (cases "ParseInt p0 16 64")
    case (Inl e)
    with parts show ?thesis by (simp add: FromString_def)
  next
    case ts: (Inr timestamp)
    show ?thesis
    proof (cases "ParseUint p1 16 32")
      case (Inl e)
      with parts ts show ?thesis by (simp add: FromString_def)
    next
      case sn: (Inr sn)
      let ?u = "u\<lparr>Timestamp := timestamp, seqNo := ucast sn\<rparr>"
      have r: "fst (FromString u val') = fst (FromString_hwAddr p2 [0..<6] ?u)"
        using parts ts sn by (simp add: FromString_def)
      from ParseInt_hex [OF ts] ParseUint_hex [OF sn] a
      have p2: "12 \<le> length p2" "\<not> list_all isHexDigit (take 12 p2)" by auto
      from p2(1) have "fst (FromString_hwAddr p2 [0..<6] ?u) \<noteq> Panic"
        by (intro FromString_hwAddr_no_Panic) auto
      moreover have "fst (FromString_hwAddr p2 [0..<6] ?u) \<noteq> ReturnNil"
      proof
        assume "fst (FromString_hwAddr p2 [0..<6] ?u) = ReturnNil"
        then have "list_all isHexDigit (take 2 (drop (2 * i) p2))" if "i < 6" for i
          using that by (intro FromString_hwAddr_Nil [where ?is = "[0..<6]"]) simp_all
        then have "list_all isHexDigit (take 12 p2)" by (rule take_12_hex)
        with p2(2) show False by simp
      qed
      ultimately show ?thesis
        unfolding r by (cases "fst (FromString_hwAddr p2 [0..<6] ?u)") simp_all
    qed
  qed
next
  show "fst (FromString u ''zz-00000001-000000000000'') = ReturnError (ErrTimestamp ErrSyntax)"
    by (simp add: FromString_def ParseInt_def ParseUint_def digit_value_def less_eq_char_def)
next
  show "fst (FromString u ''00000543cef9-0000b9d'') = ReturnError ErrSeparators"
    by (simp add: FromString_def)
qed

theorem FromString_rejects_witness:
  "count_list ''00000543cef9-0000b9d5'' (CHR ''-'') \<noteq> 2 \<and>
   Split ''00000543cef9-0000b9d5-c42c0319bdbg'' (CHR ''-'') =
     [''00000543cef9'', ''0000b9d5'', ''c42c0319bdbg''] \<and>
   12 \<le> length ''c42c0319bdbg'' \<and> \<not> list_all isHexDigit (take 12 ''c42c0319bdbg'') \<and>
   fst (FromString \<lparr>Timestamp = 0, seqNo = 0, hwAddr = HwAddr 0 0 0 0 0 0\<rparr> ''00000543cef9-0000b9d5'')
     = ReturnError ErrSeparators \<and>
   returns_error (fst (FromString \<lparr>Timestamp = 0, seqNo = 0, hwAddr = HwAddr 0 0 0 0 0 0\<rparr>
     ''00000543cef9-0000b9d5-c42c0319bdbg''))"
  using FromString_rejects
    [of "''00000543cef9-0000b9d5''" "\<lparr>Timestamp = 0, seqNo = 0, hwAddr = HwAddr 0 0 0 0 0 0\<rparr>"
        "''00000543cef9-0000b9d5-c42c0319bdbg''" "''00000543cef9''" "''0000b9d5''" "''c42c0319bdbg''"]
  by (simp add: isHexDigit_def less_eq_char_def)

text \<open>
  Claim C8 as stated also excludes uppercase digits and a sign; \<^verbatim>\<open>strconv\<close> accepts
  both, and so does \<^verbatim>\<open>FromString\<close>.
\<close>

theorem FromString_lenient_counterexample:
  "fst (FromString \<lparr>Timestamp = 0, seqNo = 0, hwAddr = HwAddr 0 0 0 0 0 0\<rparr>
          ''00000543CEF9-0000B9D5-C42C0319BDBE'') = ReturnNil \<and>
   fst (FromString \<lparr>Timestamp = 0, seqNo = 0, hwAddr = HwAddr 0 0 0 0 0 0\<rparr>
          ''+0000543cef9-0000b9d5-c42c0319bdbe'') = ReturnNil"
  by code_simp

text \<open>
  Claim C9 (the counter), as amended. Every call of \<^verbatim>\<open>NewUniqueTimestamp\<close> adds 1 to the
  counter modulo \<open>2 ^ 32\<close> and returns the new value as the sequence; up to \<open>2 ^ 32\<close>
  calls, in whatever order their atomic additions take effect and for whatever
  timestamps, return pairwise distinct sequences.
\<close>

theorem NewUniqueTimestamp_counter:
  "global_seqNo (snd (NewUniqueTimestamp g t)) = global_seqNo g + 1 \<and>
   seqNo (fst (NewUniqueTimestamp g t)) = global_seqNo (snd (NewUniqueTimestamp g t)) \<and>
   (length ts \<le> 2 ^ 32 \<longrightarrow> distinct (map seqNo (fst (NewUniqueTimestamps g ts))))"
  by (simp add: fst_NewUniqueTimestamp snd_NewUniqueTimestamp distinct_calls)

theorem NewUniqueTimestamp_counter_witness:
  "length [0x543cef9f, 0x543cef9f, 0x543cefa0 :: 64 word] \<le> 2 ^ 32 \<and>
   distinct (map seqNo (fst (NewUniqueTimestamps
     \<lparr>global_hwAddr = HwAddr 0xc4 0x2c 0x03 0x19 0xbd 0xbe, global_seqNo = 0xFFFFFFFE\<rparr>
     [0x543cef9f, 0x543cef9f, 0x543cefa0])))"
  using NewUniqueTimestamp_counter
    [of "\<lparr>global_hwAddr = HwAddr 0xc4 0x2c 0x03 0x19 0xbd 0xbe, global_seqNo = 0xFFFFFFFE\<rparr>"
        "0x543cef9f" "[0x543cef9f, 0x543cef9f, 0x543cefa0]"]
  by simp

text \<open>
  Claim C9 as stated, that every call strictly increases the counter, fails when the
  counter stands at \<open>0xFFFFFFFF\<close>: the next value is 0.
\<close>

theorem counter_wraps_counterexample:
  "\<not> global_seqNo \<lparr>global_hwAddr = HwAddr 0xc4 0x2c 0x03 0x19 0xbd 0xbe, global_seqNo = 0xFFFFFFFF\<rparr>
      < global_seqNo (snd (NewUniqueTimestamp
          \<lparr>global_hwAddr = HwAddr 0xc4 0x2c 0x03 0x19 0xbd 0xbe, global_seqNo = 0xFFFFFFFF\<rparr> 0x543cef9f))"
  by (simp add: NewUniqueTimestamp_def)

text \<open>
  Claim C10 (no write before the separator check). When the string does not split into
  exactly three parts, \<^verbatim>\<open>FromString\<close> returns the separator error and the receiver is
  as it was. A later failure can leave it partly written: with a bad second part the
  timestamp is already stored.
\<close>

theorem FromString_separators:
  "(length (Split val (CHR ''-'')) \<noteq> 3 \<longrightarrow> FromString u val = (ReturnError ErrSeparators, u)) \<and>
   FromString \<lparr>Timestamp = 7, seqNo = 9, hwAddr = HwAddr 1 2 3 4 5 6\<rparr> ''00000543cef9-zz-c42c0319bdbe'' =
     (ReturnError (ErrSeqNo ErrSyntax), \<lparr>Timestamp = 0x543cef9, seqNo = 9, hwAddr = HwAddr 1 2 3 4 5 6\<rparr>)"
  apply (rule conjI)
   apply (simp add: FromString_def)
  apply code_simp
  done

theorem FromString_separators_witness:
  "length (Split ''00000543cef9-0000b9d'' (CHR ''-'')) \<noteq> 3 \<and>
   FromString \<lparr>Timestamp = 7, seqNo = 9, hwAddr = HwAddr 1 2 3 4 5 6\<rparr> ''00000543cef9-0000b9d'' =
     (ReturnError ErrSeparators, \<lparr>Timestamp = 7, seqNo = 9, hwAddr = HwAddr 1 2 3 4 5 6\<rparr>)"
  using FromString_separators
    [of "''00000543cef9-0000b9d''" "\<lparr>Timestamp = 7, seqNo = 9, hwAddr = HwAddr 1 2 3 4 5 6\<rparr>"]
  by simp

end
